theory Spec2Isabelle
  imports Complex_Main "HOL-Library.Product_Lexorder" "HOL-Library.Multiset"
begin

section \<open>Python strings\<close>

text \<open>
  A Python \<open>str\<close> is a sequence of code points. The embedding uses \<^typ>\<open>string\<close>, whose
  characters are the 256 code points U+0000 .. U+00FF (Latin-1): \<open>of_char c\<close> is the code
  point of \<open>c\<close>. On this range \<open>str.isspace\<close>, \<open>str.isdigit\<close> and \<open>str.lower\<close> are the
  character-wise tables below; code points beyond U+00FF are outside the model.
\<close>

definition isspace :: "char \<Rightarrow> bool" where
  \<comment> \<open>the characters removed by \<open>str.strip()\<close>: TAB..CR, FS..US, SPACE, NEL, NBSP\<close>
  "isspace c = (let n = (of_char c :: nat) in
     (9 \<le> n \<and> n \<le> 13) \<or> (28 \<le> n \<and> n \<le> 32) \<or> n = 133 \<or> n = 160)"

definition isdigit :: "char \<Rightarrow> bool" where
  \<comment> \<open>\<open>str.isdigit()\<close>: the ASCII digits and the superscripts U+00B2, U+00B3, U+00B9\<close>
  "isdigit c = (let n = (of_char c :: nat) in
     (48 \<le> n \<and> n \<le> 57) \<or> n = 178 \<or> n = 179 \<or> n = 185)"

definition lower_char :: "char \<Rightarrow> char" where
  \<comment> \<open>\<open>str.lower()\<close> on one code point: A..Z and U+00C0..U+00DE (without U+00D7) move by 32\<close>
  "lower_char c = (let n = (of_char c :: nat) in
     if (65 \<le> n \<and> n \<le> 90) \<or> (192 \<le> n \<and> n \<le> 222 \<and> n \<noteq> 215)
     then char_of (n + 32) else c)"

definition lower :: "string \<Rightarrow> string" where
  "lower s = map lower_char s"

definition strip :: "string \<Rightarrow> string" where
  \<comment> \<open>\<open>str.strip()\<close> with no argument: whitespace is removed at both ends only\<close>
  "strip s = rev (dropWhile isspace (rev (dropWhile isspace s)))"

definition replace :: "char \<Rightarrow> string \<Rightarrow> string \<Rightarrow> string" where
  \<comment> \<open>\<open>s.replace(old, new)\<close> for a one-character \<open>old\<close>; the subject string comes last\<close>
  "replace old new s = concat (map (\<lambda>c. if c = old then new else [c]) s)"

datatype py_error =
  IndexError | ValueError | MalformedOrcidError string | TypeError | FileExistsError

section \<open>core.py: python_identifier\<close>

definition replaced :: "string \<Rightarrow> string" where
  \<comment> \<open>the chain of \<open>replace\<close> calls, the first call innermost; the ellipsis U+2026 of
      the fifth call is not a Latin-1 code point, so that call changes nothing here\<close>
  "replaced s =
     replace (CHR 0x83) ''''
       (replace (CHR '':'') ''_''
       (replace (CHR ''-'') ''_''
       (replace (CHR ''#'') ''number''
       (replace (CHR ''?'') ''_''
       (replace (CHR ''/'') ''_''
       (replace (CHR '','') ''_''
       (replace (CHR ''.'') ''_''
       (replace (CHR ''+'') ''''
       (replace (CHR '' '') ''_''
       (replace (CHR '')'') ''''
       (replace (CHR ''('') '''' s)))))))))))"

definition normalized :: "string \<Rightarrow> string" where
  \<comment> \<open>the value of \<open>ident\<close> before the digit test: strip, the replacements, lower\<close>
  "normalized s = lower (replaced (strip s))"

definition python_identifier :: "string \<Rightarrow> py_error + string" where
  \<comment> \<open>\<open>ident[0]\<close> raises IndexError on the empty string\<close>
  "python_identifier s =
     (let ident = normalized s
      in case ident of
           [] \<Rightarrow> Inl IndexError
         | c # _ \<Rightarrow> Inr (if isdigit c then ''n_'' @ ident else ident))"

section \<open>core.py: OrcidId.checksumValid\<close>

definition int_of_char :: "char \<Rightarrow> py_error + int" where
  \<comment> \<open>\<open>int(c)\<close> for a one-character string: only a decimal digit parses\<close>
  "int_of_char c = (let n = (of_char c :: nat) in
     if 48 \<le> n \<and> n \<le> 57 then Inr (int n - 48) else Inl ValueError)"

fun checksum_loop :: "int \<Rightarrow> string \<Rightarrow> py_error + int" where
  \<comment> \<open>\<open>for digit_string in digits: total = (total + int(digit_string)) * 2\<close>\<close>
  "checksum_loop tot [] = Inr tot"
| "checksum_loop tot (digit_string # digits) =
     (case int_of_char digit_string of
        Inl e \<Rightarrow> Inl e
      | Inr d \<Rightarrow> checksum_loop ((tot + d) * 2) digits)"

definition checksum_body :: "string \<Rightarrow> py_error + bool" where
  \<comment> \<open>the \<open>try\<close> block; the starred unpacking raises ValueError on an empty string\<close>
  "checksum_body suffix =
     (let s = replace (CHR ''-'') '''' suffix
      in if s = [] then Inl ValueError
         else let digits = butlast s; check_string = last s
              in case (if check_string = CHR ''X'' then Inr 10 else int_of_char check_string) of
                   Inl e \<Rightarrow> Inl e
                 | Inr check \<Rightarrow>
                     (case checksum_loop 0 digits of
                        Inl e \<Rightarrow> Inl e
                      | Inr tot \<Rightarrow>
                          (let remainder = tot mod 11;
                               result = (12 - remainder) mod 11
                           in Inr (result = check))))"

definition checksumValid :: "string \<Rightarrow> py_error + bool" where
  \<comment> \<open>\<open>except ValueError as e: raise self.MalformedOrcidError(self) from e\<close>\<close>
  "checksumValid suffix =
     (case checksum_body suffix of
        Inl ValueError \<Rightarrow> Inl (MalformedOrcidError suffix)
      | r \<Rightarrow> r)"

section \<open>core.py: FileSize.hr\<close>

text \<open>
  \<open>sizeof_fmt\<close> works on a Python float. The embedding computes with exact rationals:
  dividing by \<open>1024.0\<close> is exact in binary floating point for every byte count below
  \<open>2 ^ 53\<close>, and the \<open>%f\<close> conversions round the exact value to the nearest decimal,
  ties to even.
\<close>

definition round_half_even :: "rat \<Rightarrow> int" where
  "round_half_even x =
     (let f = \<lfloor>x\<rfloor>; r = x - of_int f
      in if r < 1/2 then f else if 1/2 < r then f + 1
         else if even f then f else f + 1)"

fun dec :: "nat \<Rightarrow> string" where
  \<comment> \<open>the decimal digits of a natural number\<close>
  "dec n = (if n < 10 then [char_of (48 + n)]
            else dec (n div 10) @ [char_of (48 + n mod 10)])"

declare dec.simps [simp del]

definition fmt_0f :: "rat \<Rightarrow> string" where
  \<comment> \<open>\<open>"%0.0f" % num\<close>\<close>
  "fmt_0f num = (if num < 0 then ''-'' else '''') @ dec (nat (round_half_even \<bar>num\<bar>))"

definition fmt_1f :: "rat \<Rightarrow> string" where
  \<comment> \<open>\<open>"%.1f" % num\<close>\<close>
  "fmt_1f num =
     (let q = nat (round_half_even (\<bar>num\<bar> * 10))
      in (if num < 0 then ''-'' else '''') @ dec (q div 10) @ ''.'' @ dec (q mod 10))"

fun sizeof_fmt_loop :: "rat \<Rightarrow> string \<Rightarrow> string list \<Rightarrow> string" where
  "sizeof_fmt_loop num suffix [] = fmt_1f num @ ''Yi'' @ suffix"
| "sizeof_fmt_loop num suffix (unit # units) =
     (if \<bar>num\<bar> < 1024 then fmt_0f num @ unit @ suffix
      else sizeof_fmt_loop (num / 1024) suffix units)"

definition sizeof_fmt :: "rat \<Rightarrow> string \<Rightarrow> string" where
  "sizeof_fmt num suffix =
     sizeof_fmt_loop num suffix ['''', ''K'', ''M'', ''G'', ''T'', ''P'', ''E'', ''Z'']"

definition hr :: "int \<Rightarrow> string" where
  \<comment> \<open>a FileSize is an int, never None, so the test is \<open>self >= 0\<close>\<close>
  "hr self = (if self \<ge> 0 then sizeof_fmt (of_int self) '''' else ''??'')"

section \<open>cli.py: the process and the file system\<close>

text \<open>
  A path is the list of its components. A command is a function from what it reads
  (options, file system, results of calls into other modules) to the list of its
  observable events, in program order, and the way it ends.
\<close>

type_synonym path = "string list"

definition render :: "path \<Rightarrow> string" where
  \<comment> \<open>\<open>str(path)\<close> of an absolute path\<close>
  "render p = concat (map (\<lambda>c. ''/'' @ c) p)"



datatype event =
    Print string
  | LogInfo string
  | Mkdir path
  | Unlink path
  | SymlinkTo path path
  | WriteFile path
  | Pull path
  | Embed

datatype outcome = Returned | Exit int | Raised py_error

section \<open>cli.py: Main.clone\<close>

record clone_env =
  project_id :: "string option"        \<comment> \<open>\<open>self.options.project_id\<close>\<close>
  remote_project_name :: "string option"
    \<comment> \<open>\<open>BFLocal(project_id).project_name\<close>; None when it raises MissingSecretError\<close>
  clone_cwd :: path
  cache_root :: "path option"          \<comment> \<open>\<open>anchor_local.find_cache_root()\<close>\<close>
  anchor_exists :: bool                \<comment> \<open>\<open>anchor.exists()\<close>\<close>
  anchor_children :: "string list"     \<comment> \<open>\<open>list(anchor.local.children)\<close>\<close>

definition clone :: "clone_env \<Rightarrow> event list \<times> outcome" where
  "clone env =
     (case project_id env of
        None \<Rightarrow> ([Print ''no remote project id listed''], Exit 4)
      | Some pid \<Rightarrow>
         (case remote_project_name env of
            None \<Rightarrow> ([Print (''missing api secret entry for '' @ pid)], Exit 11)
          | Some project_name \<Rightarrow>
             (case cache_root env of
                Some r \<Rightarrow>
                  ([Print (''fatal: already in project located at '' @ render r)], Exit 3)
              | None \<Rightarrow>
                 (let anchor = clone_cwd env @ [project_name]
                  in if anchor_exists env \<and> anchor_children env \<noteq> []
                     then ([], Exit 2)
                       \<comment> \<open>\<open>message\<close> is assigned and never printed\<close>
                     else ([Pull anchor], Returned)))))"

section \<open>cli.py: Main.export\<close>

record export_env =
  opt_ttl :: bool
  opt_json :: bool
  opt_datasets :: bool
  opt_debug :: bool
  cwd :: path                          \<comment> \<open>\<open>Path.cwd()\<close>\<close>
  anchor :: path                       \<comment> \<open>\<open>cwd.cache.anchor\<close>\<close>
  cwd_is_dataset :: bool               \<comment> \<open>the truth value of \<open>cwd.cache.is_dataset\<close>\<close>
  timestamp :: string
  export_base :: path                  \<comment> \<open>\<open>project_path.parent / 'export' / project_id\<close>\<close>
  ft_id :: string                      \<comment> \<open>\<open>Integrator(cwd).id\<close>\<close>
  existing :: "path list"              \<comment> \<open>the paths on which \<open>exists()\<close> is true\<close>
  symlinks :: "path list"              \<comment> \<open>the paths on which \<open>is_symlink()\<close> is true\<close>
  summary_xml :: "string list"         \<comment> \<open>the names in \<open>summary.xml\<close>\<close>
  summary_disco :: "string list"       \<comment> \<open>the names in \<open>summary.disco\<close>\<close>
  summary_ids :: "string list"         \<comment> \<open>\<open>d.id\<close> for \<open>d\<close> in \<open>summary\<close>\<close>








section \<open>cli.py: Main._build_paths\<close>

text \<open>
  Modelled from the spec: the properties \<open>children\<close> and \<open>rchildren\<close> of a path
  (module \<open>sparcur.paths\<close>) are the entries directly inside a directory and all the
  entries below it, depth first; a path that is not a directory has neither. A broken
  placeholder link carries the \<open>file_id\<close> of its cached metadata.
\<close>

datatype entry =
    File string
  | Link string "string option"
  | Dir string "entry list"

fun name :: "entry \<Rightarrow> string" where
  "name (File n) = n"
| "name (Link n _) = n"
| "name (Dir n _) = n"

fun is_dir :: "entry \<Rightarrow> bool" where
  "is_dir (Dir _ _) = True"
| "is_dir _ = False"

fun is_broken_symlink :: "entry \<Rightarrow> bool" where
  "is_broken_symlink (Link _ _) = True"
| "is_broken_symlink _ = False"

fun file_id :: "entry \<Rightarrow> string option" where
  "file_id (Link _ i) = i"
| "file_id _ = None"

fun children :: "path \<times> entry \<Rightarrow> (path \<times> entry) list" where
  "children (p, Dir _ es) = map (\<lambda>e. (p @ [name e], e)) es"
| "children (p, _) = []"

fun rchildren :: "path \<Rightarrow> entry \<Rightarrow> (path \<times> entry) list" where
  "rchildren p (Dir _ es) =
     concat (map (\<lambda>e. (p @ [name e], e) # rchildren (p @ [name e]) e) es)"
| "rchildren p _ = []"

record path_options =
  opt_only_no_file_id :: bool
  opt_empty :: bool
  opt_level :: "int option"                \<comment> \<open>\<open>Options.level\<close>; None is unbounded\<close>

definition no_file_id :: "path \<times> entry \<Rightarrow> bool" where
  \<comment> \<open>\<open>path.is_broken_symlink() and path.cache.meta.file_id is None\<close>\<close>
  "no_file_id pe = (is_broken_symlink (snd pe) \<and> file_id (snd pe) = None)"

fun visit :: "path_options \<Rightarrow> int \<Rightarrow> path \<Rightarrow> entry \<Rightarrow> (path \<times> entry) list" where
  \<comment> \<open>one iteration of the loop of \<open>inner\<close>, on the path \<open>p\<close> whose entry is \<open>e\<close>,
      at depth \<open>lvl\<close>; \<open>stop\<close> is \<open>opt_level opts\<close>\<close>
  "visit opts lvl p e =
     (let descend =
            (case opt_level opts of
               None \<Rightarrow>
                 if opt_only_no_file_id opts then filter no_file_id (rchildren p e)
                 else rchildren p e
             | Some stop \<Rightarrow>
                 if lvl \<le> stop
                 then (case e of
                         Dir _ es \<Rightarrow>
                           concat (map (\<lambda>c. visit opts (lvl + 1) (p @ [name c]) c) es)
                       | _ \<Rightarrow> [])
                 else [])
      in if opt_only_no_file_id opts then
           (if no_file_id (p, e) then [(p, e)] else descend)
         else if opt_empty opts then
           (if is_dir e
            then (if children (p, e) = [] then [(p, e)] else []) @ descend
            else [])
         else (p, e) # descend)"

declare visit.simps [simp del]

definition inner :: "path_options \<Rightarrow> int \<Rightarrow> (path \<times> entry) list \<Rightarrow> (path \<times> entry) list" where
  \<comment> \<open>\<open>inner(paths, level)\<close>: the loop over \<open>paths\<close>\<close>
  "inner opts lvl paths = concat (map (\<lambda>(p, e). visit opts lvl p e) paths)"

definition build_paths :: "path_options \<Rightarrow> (path \<times> entry) list \<Rightarrow> (path \<times> entry) list" where
  "build_paths opts paths = inner opts 0 paths"

section \<open>cli.py: Main.find\<close>






section \<open>cli.py: Report.size\<close>

datatype kind = RegularFile | BrokenSymlink | Directory | Other












section \<open>Vocabulary of the properties\<close>

definition special :: "char set" where
  \<comment> \<open>the Latin-1 characters that python_identifier deletes or replaces\<close>
  "special = {CHR ''('', CHR '')'', CHR '' '', CHR ''+'', CHR ''.'', CHR '','', CHR ''/'',
              CHR ''?'', CHR ''#'', CHR ''-'', CHR '':'', CHR 0x83}"

definition deleted :: "char set" where
  \<comment> \<open>the Latin-1 characters that python_identifier replaces by the empty string\<close>
  "deleted = {CHR ''('', CHR '')'', CHR ''+'', CHR 0x83}"

definition decimal :: "char \<Rightarrow> bool" where
  \<comment> \<open>one of the characters 0 .. 9\<close>
  "decimal c = (48 \<le> (of_char c :: nat) \<and> (of_char c :: nat) \<le> 57)"

definition digit_value :: "char \<Rightarrow> int" where
  "digit_value c = int (of_char c) - 48"

definition check_value :: "char \<Rightarrow> int" where
  \<comment> \<open>the value of the check character: 10 for X, else its digit value\<close>
  "check_value c = (if c = CHR ''X'' then 10 else digit_value c)"

definition spec_total :: "string \<Rightarrow> int" where
  \<comment> \<open>the fold of the ORCID checksum as the specification words it\<close>
  "spec_total ds = foldl (\<lambda>t d. (t + digit_value d) * 2) 0 ds"

definition well_formed :: "string \<Rightarrow> bool" where
  \<comment> \<open>digits followed by a final check character that is a digit or X\<close>
  "well_formed s =
     (s \<noteq> [] \<and> (\<forall>d\<in>set (butlast s). decimal d) \<and> (decimal (last s) \<or> last s = CHR ''X''))"

definition dehyphenated :: "string \<Rightarrow> string" where
  "dehyphenated suffix = replace (CHR ''-'') '''' suffix"









definition empty_only :: "int option \<Rightarrow> path_options" where
  \<comment> \<open>\<open>--empty\<close> alone, with the given \<open>--level\<close>\<close>
  "empty_only lvl = \<lparr>opt_only_no_file_id = False, opt_empty = True, opt_level = lvl\<rparr>"

definition example_tree :: "path \<times> entry" where
  \<comment> \<open>a directory \<open>/r\<close> with a file, an empty directory and a directory holding a file\<close>
  "example_tree = ([''r''], Dir ''r'' [File ''f'', Dir ''e'' [], Dir ''n'' [File ''g'']])"








section \<open>Properties of FileSize.hr\<close>

text \<open>
  Claim C7: \<open>FileSize(0).hr\<close> is \<open>0\<close>, \<open>FileSize(1024).hr\<close> is \<open>1K\<close>,
  \<open>FileSize(1536).hr\<close> is \<open>2K\<close>, and every negative FileSize renders as \<open>??\<close>.
\<close>

theorem hr_values:
  "hr 0 = ''0'' \<and> hr 1024 = ''1K'' \<and> hr 1536 = ''2K'' \<and> (\<forall>n. n < 0 \<longrightarrow> hr n = ''??'')"
proof -
  have "hr 0 = ''0''" by code_simp
  moreover have "hr 1024 = ''1K''" by code_simp
  moreover have "hr 1536 = ''2K''" by code_simp
  moreover have "\<forall>n. n < 0 \<longrightarrow> hr n = ''??''" by (simp add: hr_def)
  ultimately show ?thesis by blast
qed

theorem hr_values_witness:
  "(-5::int) < 0 \<and> hr (-5) = ''??'' \<and> hr 1536 = ''2K''"
  using hr_values by simp


section \<open>Properties of python_identifier\<close>

lemma set_replace_iff:
  "c \<in> set (replace old new s) \<longleftrightarrow> (c \<in> set s \<and> c \<noteq> old) \<or> (old \<in> set s \<and> c \<in> set new)"
  by (induction s) (auto simp: replace_def)

lemma replace_absent: "old \<notin> set s \<Longrightarrow> replace old new s = s"
  by (induction s) (auto simp: replace_def)

lemma mem_replace_same: "x \<notin> set new \<Longrightarrow> x \<in> set (replace x new s) \<longleftrightarrow> False"
  by (simp add: set_replace_iff)

lemma mem_replace_other:
  "x \<notin> set new \<Longrightarrow> x \<noteq> old \<Longrightarrow> x \<in> set (replace old new s) \<longleftrightarrow> x \<in> set s"
  by (simp add: set_replace_iff)

lemma lower_char_idem: "lower_char (lower_char c) = lower_char c"
  by (auto simp: lower_char_def Let_def)

lemma lower_char_cases:
  "lower_char c = c \<or> (97 \<le> (of_char (lower_char c) :: nat) \<and> (of_char (lower_char c) :: nat) \<le> 122)
     \<or> (224 \<le> (of_char (lower_char c) :: nat) \<and> (of_char (lower_char c) :: nat) \<le> 254)"
  by (auto simp: lower_char_def Let_def)

lemma special_code: "x \<in> special \<Longrightarrow> (of_char x :: nat) < 97 \<or> (of_char x :: nat) = 131"
  by (auto simp: special_def)

lemma lower_char_special: "lower_char c \<in> special \<Longrightarrow> c \<in> special"
  using lower_char_cases [of c] special_code [of "lower_char c"] by auto

lemma special_not_replaced: "x \<in> special \<Longrightarrow> x \<notin> set (replaced s)"
  by (auto simp: special_def replaced_def mem_replace_same mem_replace_other)

lemma replaced_clean: "set s \<inter> special = {} \<Longrightarrow> replaced s = s"
  by (simp add: special_def replaced_def replace_absent)

lemma normalized_clean:
  assumes "c \<in> set (normalized s)"
  shows "c \<notin> special" and "lower_char c = c"
proof -
  from assms obtain d where d: "c = lower_char d" "d \<in> set (replaced (strip s))"
    by (auto simp: normalized_def lower_def)
  then have "d \<notin> special" using special_not_replaced by blast
  then show "c \<notin> special" using d lower_char_special by blast
  show "lower_char c = c" using d lower_char_idem by simp
qed

lemma normalized_of_clean:
  assumes "\<forall>c\<in>set r. c \<notin> special \<and> lower_char c = c"
  shows "normalized r = strip r"
proof -
  have sub: "set (strip r) \<subseteq> set r"
    by (auto simp: strip_def dest!: set_dropWhileD)
  then have "set (strip r) \<inter> special = {}" using assms by blast
  then have "replaced (strip r) = strip r" by (rule replaced_clean)
  moreover have "lower (strip r) = strip r"
    unfolding lower_def using sub assms by (simp add: map_idI subset_iff)
  ultimately show ?thesis by (simp add: normalized_def)
qed

lemma strip_prefix:
  assumes "r \<noteq> []" and "\<not> isspace (hd r)"
  shows "\<exists>b. r = strip r @ b"
proof -
  from assms have "dropWhile isspace r = r" by (cases r) auto
  then have "strip r = rev (dropWhile isspace (rev r))" by (simp add: strip_def)
  moreover have "rev r = takeWhile isspace (rev r) @ dropWhile isspace (rev r)" by simp
  then have "r = rev (dropWhile isspace (rev r)) @ rev (takeWhile isspace (rev r))"
    by (metis rev_append rev_rev_ident)
  ultimately show ?thesis by metis
qed

lemma python_identifier_Inr:
  assumes "python_identifier s = Inr r"
  shows "r \<noteq> []" and "\<not> isdigit (hd r)"
    and "\<forall>c\<in>set r. c \<notin> special \<and> lower_char c = c"
proof -
  from assms obtain c cs where n: "normalized s = c # cs"
    and r: "r = (if isdigit c then ''n_'' @ normalized s else normalized s)"
    by (auto simp: python_identifier_def Let_def split: list.splits)
  show "r \<noteq> []" using n r by auto
  show "\<not> isdigit (hd r)" using n r by (auto simp: isdigit_def)
  have "\<forall>c\<in>set (normalized s). c \<notin> special \<and> lower_char c = c"
    using normalized_clean by blast
  moreover have "\<forall>c\<in>set ''n_''. c \<notin> special \<and> lower_char c = c"
    by (simp add: special_def lower_char_def)
  ultimately show "\<forall>c\<in>set r. c \<notin> special \<and> lower_char c = c"
    using r by auto
qed

lemma python_identifier_again:
  assumes "python_identifier s = Inr r"
  shows "python_identifier r = Inr r \<longleftrightarrow> strip r = r"
proof -
  note facts = python_identifier_Inr [OF assms]
  have norm: "normalized r = strip r" using facts(3) by (rule normalized_of_clean)
  show ?thesis
  proof
    assume "strip r = r"
    then show "python_identifier r = Inr r"
      using facts(1,2) norm by (cases r) (auto simp: python_identifier_def)
  next
    assume again: "python_identifier r = Inr r"
    then obtain c t where st: "strip r = c # t"
      and r: "r = (if isdigit c then ''n_'' @ strip r else strip r)"
      using norm by (auto simp: python_identifier_def Let_def split: list.splits)
    show "strip r = r"
    proof (cases "isdigit c")
      case False
      then show ?thesis using r by simp
    next
      case True
      then have r2: "r = ''n_'' @ strip r" using r by simp
      then have "hd r = CHR ''n''" by (metis append_Cons list.sel(1))
      then have "\<not> isspace (hd r)" by (simp add: isspace_def)
      then obtain b where "r = strip r @ b" using strip_prefix facts(1) by blast
      then have "hd r = c" using st by (metis append_Cons list.sel(1))
      then have "c = CHR ''n''" using \<open>hd r = CHR ''n''\<close> by simp
      then have False using True by (simp add: isdigit_def)
      then show ?thesis ..
    qed
  qed
qed


lemma set_strip_subset: "set (strip s) \<subseteq> set s"
  by (auto simp: strip_def dest!: set_dropWhileD)

lemma strip_all_space: "\<forall>c\<in>set s. isspace c \<Longrightarrow> strip s = []"
  by (auto simp: strip_def dest: set_dropWhileD)

lemma normalized_Nil: "strip s = [] \<Longrightarrow> normalized s = []"
  by (simp add: normalized_def lower_def replaced_def replace_def)

lemma replaced_single_deleted: "c \<in> deleted \<Longrightarrow> replaced [c] = []"
  unfolding deleted_def by (elim insertE emptyE; simp add: replaced_def replace_def)

lemma replace_append: "replace old new (a @ b) = replace old new a @ replace old new b"
  by (simp add: replace_def)

lemma replaced_append: "replaced (a @ b) = replaced a @ replaced b"
  by (simp add: replaced_def replace_append)

lemma replaced_deleted: "set s \<subseteq> deleted \<Longrightarrow> replaced s = []"
proof (induction s)
  case Nil
  show ?case by (simp add: replaced_def replace_def)
next
  case (Cons c s)
  have "c \<in> deleted" using Cons.prems by simp
  then have "replaced [c] = []" by (rule replaced_single_deleted)
  moreover have "replaced s = []" using Cons by simp
  ultimately show ?case using replaced_append [of "[c]" s] by simp
qed

lemma normalized_deleted: "set s \<subseteq> deleted \<Longrightarrow> normalized s = []"
  using replaced_deleted [of "strip s"] set_strip_subset [of s]
  by (simp add: normalized_def lower_def subset_trans)

text \<open>
  Claim C10: python_identifier raises (the index error of \<open>ident[0]\<close>) exactly on the
  inputs whose normalized form is empty, among them the empty string, every
  whitespace-only string and every string made of deleted characters only; on every
  other input it returns a token.
\<close>

theorem python_identifier_raises:
  "(python_identifier s = Inl IndexError \<longleftrightarrow> normalized s = []) \<and>
   (normalized s \<noteq> [] \<longrightarrow> (\<exists>r. python_identifier s = Inr r)) \<and>
   ((\<forall>c\<in>set s. isspace c) \<longrightarrow> python_identifier s = Inl IndexError) \<and>
   (set s \<subseteq> deleted \<longrightarrow> python_identifier s = Inl IndexError)"
proof -
  have a: "python_identifier s = Inl IndexError \<longleftrightarrow> normalized s = []"
    by (simp add: python_identifier_def Let_def split: list.splits)
  have b: "normalized s \<noteq> [] \<longrightarrow> (\<exists>r. python_identifier s = Inr r)"
    by (simp add: python_identifier_def Let_def split: list.splits)
  have c: "(\<forall>c\<in>set s. isspace c) \<longrightarrow> python_identifier s = Inl IndexError"
    using a strip_all_space [of s] normalized_Nil [of s] by blast
  have d: "set s \<subseteq> deleted \<longrightarrow> python_identifier s = Inl IndexError"
    using a normalized_deleted by blast
  from a b c d show ?thesis by blast
qed

theorem python_identifier_raises_witness:
  "python_identifier '''' = Inl IndexError \<and>
   python_identifier [CHR '' '', CHR 0x09, CHR 0x0A] = Inl IndexError \<and>
   python_identifier ''()+'' = Inl IndexError \<and>
   normalized ''a b'' \<noteq> [] \<and> (\<exists>r. python_identifier ''a b'' = Inr r)"
proof -
  have "\<forall>c\<in>set ''''. isspace c" by simp
  then have e: "python_identifier '''' = Inl IndexError"
    using python_identifier_raises [of "''''"] by blast
  have "\<forall>c\<in>set [CHR '' '', CHR 0x09, CHR 0x0A]. isspace c" by (simp add: isspace_def)
  then have w: "python_identifier [CHR '' '', CHR 0x09, CHR 0x0A] = Inl IndexError"
    using python_identifier_raises [of "[CHR '' '', CHR 0x09, CHR 0x0A]"] by blast
  have "set ''()+'' \<subseteq> deleted" by (simp add: deleted_def)
  then have d: "python_identifier ''()+'' = Inl IndexError"
    using python_identifier_raises [of "''()+''"] by blast
  have n: "normalized ''a b'' \<noteq> []" by code_simp
  then have "\<exists>r. python_identifier ''a b'' = Inr r"
    using python_identifier_raises [of "''a b''"] by blast
  with e w d n show ?thesis by blast
qed

text \<open>
  Claim C9, as the code has it: whenever python_identifier returns, the result is
  not empty and its first character is not a digit (the prefix \<open>n_\<close> is prepended when
  the normalized form begins with a digit); a second application returns the same
  token exactly when that token has no leading or trailing whitespace.
\<close>

theorem python_identifier_twice:
  assumes "python_identifier s = Inr r"
  shows "r \<noteq> [] \<and> \<not> isdigit (hd r) \<and>
         (isdigit (hd (normalized s)) \<longrightarrow> r = ''n_'' @ normalized s) \<and>
         (python_identifier r = Inr r \<longleftrightarrow> strip r = r)"
proof -
  have "isdigit (hd (normalized s)) \<longrightarrow> r = ''n_'' @ normalized s"
    using assms by (auto simp: python_identifier_def Let_def split: list.splits)
  then show ?thesis
    using python_identifier_Inr(1,2) [OF assms] python_identifier_again [OF assms] by blast
qed

theorem python_identifier_twice_witness:
  "python_identifier ''1st.'' = Inr ''n_1st_'' \<and> isdigit (hd (normalized ''1st.'')) \<and>
   strip ''n_1st_'' = ''n_1st_'' \<and> python_identifier ''n_1st_'' = Inr ''n_1st_''"
proof -
  have h: "python_identifier ''1st.'' = Inr ''n_1st_''" by code_simp
  have d: "isdigit (hd (normalized ''1st.''))" by code_simp
  have s: "strip ''n_1st_'' = ''n_1st_''" by code_simp
  from python_identifier_twice [OF h] s have "python_identifier ''n_1st_'' = Inr ''n_1st_''"
    by blast
  with h d s show ?thesis by blast
qed

text \<open>
  Claim C9 as stated fails: on the input left parenthesis, TAB, \<open>a\<close> the first
  application returns TAB \<open>a\<close>, and the second application strips the TAB.
\<close>

theorem python_identifier_not_idempotent:
  "python_identifier [CHR ''('', CHR 0x09, CHR ''a''] = Inr [CHR 0x09, CHR ''a''] \<and>
   python_identifier [CHR 0x09, CHR ''a''] = Inr ''a'' \<and>
   python_identifier [CHR 0x09, CHR ''a''] \<noteq> Inr [CHR 0x09, CHR ''a'']"
  by code_simp


section \<open>Properties of OrcidId.checksumValid\<close>

lemma int_of_char_decimal: "int_of_char c = (if decimal c then Inr (digit_value c) else Inl ValueError)"
  by (auto simp: decimal_def int_of_char_def digit_value_def Let_def)

lemma checksum_loop_ok:
  "\<forall>d\<in>set ds. decimal d \<Longrightarrow> checksum_loop t ds = Inr (foldl (\<lambda>t d. (t + digit_value d) * 2) t ds)"
  by (induction ds arbitrary: t) (simp_all add: int_of_char_decimal)

lemma checksum_loop_bad:
  "\<not> (\<forall>d\<in>set ds. decimal d) \<Longrightarrow> checksum_loop t ds = Inl ValueError"
  by (induction ds arbitrary: t) (auto simp: int_of_char_decimal)

lemma checksumValid_wf:
  assumes "well_formed (dehyphenated suffix)"
  shows "checksumValid suffix =
     Inr ((12 - spec_total (butlast (dehyphenated suffix)) mod 11) mod 11
          = check_value (last (dehyphenated suffix)))"
  using assms
  by (auto simp: well_formed_def checksumValid_def checksum_body_def dehyphenated_def [symmetric] Let_def checksum_loop_ok
      int_of_char_decimal check_value_def spec_total_def)

lemma checksumValid_malformed:
  assumes "\<not> well_formed (dehyphenated suffix)"
  shows "checksumValid suffix = Inl (MalformedOrcidError suffix)"
proof (cases "dehyphenated suffix = []")
  case True
  then show ?thesis by (simp add: checksumValid_def checksum_body_def dehyphenated_def [symmetric])
next
  case False
  show ?thesis
  proof (cases "decimal (last (dehyphenated suffix)) \<or> last (dehyphenated suffix) = CHR ''X''")
    case True
    then have "\<not> (\<forall>d\<in>set (butlast (dehyphenated suffix)). decimal d)"
      using assms False by (auto simp: well_formed_def)
    then have "checksum_loop 0 (butlast (dehyphenated suffix)) = Inl ValueError"
      by (rule checksum_loop_bad)
    then show ?thesis using False
      by (auto simp: checksumValid_def checksum_body_def dehyphenated_def [symmetric] Let_def int_of_char_decimal)
  next
    case False
    then show ?thesis using \<open>dehyphenated suffix \<noteq> []\<close>
      by (auto simp: checksumValid_def checksum_body_def dehyphenated_def [symmetric] Let_def int_of_char_decimal)
  qed
qed


text \<open>
  Claim C6: when the de-hyphenated suffix is digits followed by a final digit or X,
  checksumValid returns whether \<open>(12 - total mod 11) mod 11\<close> equals the value of the
  check character, \<open>total\<close> being the left-to-right fold \<open>total = (total + digit) * 2\<close>
  over the other digits; on every other suffix it raises the malformed-identifier error
  instead of returning false.
\<close>

theorem checksumValid_spec:
  "(well_formed (dehyphenated suffix) \<longrightarrow>
      checksumValid suffix =
        Inr ((12 - spec_total (butlast (dehyphenated suffix)) mod 11) mod 11
             = check_value (last (dehyphenated suffix)))) \<and>
   (\<not> well_formed (dehyphenated suffix) \<longrightarrow>
      checksumValid suffix = Inl (MalformedOrcidError suffix))"
  using checksumValid_wf checksumValid_malformed by blast

theorem checksumValid_spec_witness:
  "well_formed (dehyphenated ''0000-0002-1825-0097'') \<and>
   checksumValid ''0000-0002-1825-0097'' = Inr True \<and>
   well_formed (dehyphenated ''0000-0002-1694-233X'') \<and>
   checksumValid ''0000-0002-1694-233X'' = Inr True \<and>
   well_formed (dehyphenated ''0000-0002-1825-0098'') \<and>
   checksumValid ''0000-0002-1825-0098'' = Inr False \<and>
   \<not> well_formed (dehyphenated ''0000-0002-1825-00X7'') \<and>
   checksumValid ''0000-0002-1825-00X7'' = Inl (MalformedOrcidError ''0000-0002-1825-00X7'')"
proof -
  have w1: "well_formed (dehyphenated ''0000-0002-1825-0097'')" by code_simp
  have v1: "((12 - spec_total (butlast (dehyphenated ''0000-0002-1825-0097'')) mod 11) mod 11
             = check_value (last (dehyphenated ''0000-0002-1825-0097''))) = True" by code_simp
  have w2: "well_formed (dehyphenated ''0000-0002-1694-233X'')" by code_simp
  have v2: "((12 - spec_total (butlast (dehyphenated ''0000-0002-1694-233X'')) mod 11) mod 11
             = check_value (last (dehyphenated ''0000-0002-1694-233X''))) = True" by code_simp
  have w3: "well_formed (dehyphenated ''0000-0002-1825-0098'')" by code_simp
  have v3: "((12 - spec_total (butlast (dehyphenated ''0000-0002-1825-0098'')) mod 11) mod 11
             = check_value (last (dehyphenated ''0000-0002-1825-0098''))) = False" by code_simp
  have w4: "\<not> well_formed (dehyphenated ''0000-0002-1825-00X7'')" by code_simp
  have r1: "checksumValid ''0000-0002-1825-0097'' = Inr True"
    using checksumValid_spec [of "''0000-0002-1825-0097''", THEN conjunct1, THEN mp, OF w1]
    by (simp only: v1)
  have r2: "checksumValid ''0000-0002-1694-233X'' = Inr True"
    using checksumValid_spec [of "''0000-0002-1694-233X''", THEN conjunct1, THEN mp, OF w2]
    by (simp only: v2)
  have r3: "checksumValid ''0000-0002-1825-0098'' = Inr False"
    using checksumValid_spec [of "''0000-0002-1825-0098''", THEN conjunct1, THEN mp, OF w3]
    by (simp only: v3)
  have r4: "checksumValid ''0000-0002-1825-00X7'' = Inl (MalformedOrcidError ''0000-0002-1825-00X7'')"
    using checksumValid_spec [of "''0000-0002-1825-00X7''", THEN conjunct2, THEN mp, OF w4] .
  from w1 r1 w2 r2 w3 r3 w4 r4 show ?thesis by (intro conjI)
qed

section \<open>Properties of Main.clone\<close>

text \<open>
  Claim C8: when the destination directory already exists and is not empty, clone
  exits with status 2 after printing a message. The code exits with status 2, and
  prints nothing: evaluated on a project id whose destination holds one entry.
\<close>

theorem clone_nonempty_destination:
  "clone \<lparr>project_id = Some ''N:organization:1'', remote_project_name = Some ''proj'',
          clone_cwd = [''home''], cache_root = None, anchor_exists = True,
          anchor_children = [''data'']\<rparr> = ([], Exit 2)"
  by (simp add: clone_def)

section \<open>Properties of Main.export\<close>










section \<open>Properties of Main._build_paths\<close>

lemma visit_empty_Dir:
  assumes "opt_empty opts" and "\<not> opt_only_no_file_id opts" and "opt_level opts = Some stop"
  shows "visit opts lvl p (Dir n es) =
           (if es = [] then [(p, Dir n es)] else []) @
           (if lvl \<le> stop
            then concat (map (\<lambda>c. visit opts (lvl + 1) (p @ [name c]) c) es) else [])"
  by (subst visit.simps) (simp add: assms Let_def)

lemma visit_empty_not_Dir:
  assumes "opt_empty opts" and "\<not> opt_only_no_file_id opts" and "\<not> is_dir e"
  shows "visit opts lvl p e = []"
  by (subst visit.simps) (simp add: assms Let_def)

lemma visit_empty_bounded:
  "opt_empty opts \<Longrightarrow> \<not> opt_only_no_file_id opts \<Longrightarrow> opt_level opts = Some stop \<Longrightarrow>
   (q, x) \<in> set (visit opts lvl p e) \<Longrightarrow> is_dir x \<and> children (q, x) = []"
proof (induction opts lvl p e rule: visit.induct)
  case (1 opts lvl p e)
  note flags = "1.prems"(1,2,3)
  show ?case
  proof (cases e)
    case (Dir n es)
    from "1.prems"(4) have
      "(q, x) = (p, e) \<and> es = [] \<or>
       (lvl \<le> stop \<and> (\<exists>c\<in>set es. (q, x) \<in> set (visit opts (lvl + 1) (p @ [name c]) c)))"
      unfolding Dir visit_empty_Dir [OF flags] by (auto split: if_splits)
    then show ?thesis
    proof
      assume "(q, x) = (p, e) \<and> es = []"
      then show ?thesis using Dir by auto
    next
      assume "lvl \<le> stop \<and> (\<exists>c\<in>set es. (q, x) \<in> set (visit opts (lvl + 1) (p @ [name c]) c))"
      then obtain c where "lvl \<le> stop" "c \<in> set es"
        "(q, x) \<in> set (visit opts (lvl + 1) (p @ [name c]) c)" by blast
      then show ?thesis using "1.IH" [of stop n es c] flags Dir by simp
    qed
  next
    case (File n)
    then show ?thesis using "1.prems"(4) visit_empty_not_Dir [OF flags(1,2), of e] by simp
  next
    case (Link n i)
    then show ?thesis using "1.prems"(4) visit_empty_not_Dir [OF flags(1,2), of e] by simp
  qed
qed

lemma visit_empty_finds_nested:
  assumes "opt_empty opts" and "\<not> opt_only_no_file_id opts" and "opt_level opts = Some stop"
    and "lvl \<le> stop" and "Dir m [] \<in> set es"
  shows "(p @ [m], Dir m []) \<in> set (visit opts lvl p (Dir n es))"
proof -
  have "(p @ [m], Dir m []) \<in> set (visit opts (lvl + 1) (p @ [name (Dir m [])]) (Dir m []))"
    unfolding visit_empty_Dir [OF assms(1,2,3)] by simp
  then have "\<exists>c\<in>set es. (p @ [m], Dir m []) \<in> set (visit opts (lvl + 1) (p @ [name c]) c)"
    using assms(5) by (intro bexI [of _ "Dir m []"]) simp_all
  then show ?thesis
    unfolding visit_empty_Dir [OF assms(1,2,3), of lvl] using assms(4) by auto
qed

lemma build_paths_empty_bounded:
  assumes "(q, x) \<in> set (build_paths (empty_only (Some stop)) paths)"
  shows "is_dir x \<and> children (q, x) = []"
proof -
  from assms obtain p e where "(q, x) \<in> set (visit (empty_only (Some stop)) 0 p e)"
    by (auto simp: build_paths_def inner_def)
  then show ?thesis
    using visit_empty_bounded [of "empty_only (Some stop)" stop q x 0 p e]
    by (simp add: empty_only_def)
qed

text \<open>
  Claim C3: with only the empty flag set, every yielded path is a directory without
  children, at any depth limit. With the unbounded limit the code yields every
  descendant of a non-empty directory: evaluated on \<open>/r\<close>, which holds the file \<open>f\<close>, the
  empty directory \<open>e\<close> and the directory \<open>n\<close> with the file \<open>g\<close>.
\<close>

theorem build_paths_empty_unbounded:
  "build_paths (empty_only None) [example_tree] =
     [([''r'', ''f''], File ''f''),
      ([''r'', ''e''], Dir ''e'' []),
      ([''r'', ''n''], Dir ''n'' [File ''g'']),
      ([''r'', ''n'', ''g''], File ''g'')]"
  by code_simp

section \<open>Properties of Main.find\<close>






section \<open>Properties of Report.size\<close>





end
